theory Spec2Isabelle
  imports Complex_Main
begin

section \<open>JavaScript numbers\<close>

text \<open>
  The pitch analysis computes on JavaScript numbers. A number is modelled as a finite
  real, one of the two infinities, or NaN. The special values follow IEEE 754: a
  nonzero value divided by zero is an infinity, \<open>0 / 0\<close> and \<open>\<infinity> - \<infinity>\<close> are NaN, NaN
  propagates through arithmetic and makes every comparison false. Finite results are
  exact: rounding to binary64 (and to binary32 when a value is stored in a
  \<open>Float32Array\<close>) is not modelled, and \<open>-0\<close> is identified with \<open>0\<close>.
\<close>

datatype number = Fin real | PosInf | NegInf | NaN

instantiation number :: "{plus, uminus, minus, times, inverse, ord}"
begin

fun plus_number :: "number \<Rightarrow> number \<Rightarrow> number" where
  "plus_number (Fin a) (Fin b) = Fin (a + b)"
| "plus_number NaN _ = NaN"
| "plus_number _ NaN = NaN"
| "plus_number PosInf NegInf = NaN"
| "plus_number NegInf PosInf = NaN"
| "plus_number PosInf _ = PosInf"
| "plus_number _ PosInf = PosInf"
| "plus_number NegInf _ = NegInf"
| "plus_number _ NegInf = NegInf"

fun uminus_number :: "number \<Rightarrow> number" where
  "uminus_number (Fin a) = Fin (- a)"
| "uminus_number PosInf = NegInf"
| "uminus_number NegInf = PosInf"
| "uminus_number NaN = NaN"

definition minus_number :: "number \<Rightarrow> number \<Rightarrow> number" where
  "minus_number x y = x + (- y)"

fun times_number :: "number \<Rightarrow> number \<Rightarrow> number" where
  "times_number (Fin a) (Fin b) = Fin (a * b)"
| "times_number NaN _ = NaN"
| "times_number _ NaN = NaN"
| "times_number PosInf (Fin b) = (if b = 0 then NaN else if 0 < b then PosInf else NegInf)"
| "times_number NegInf (Fin b) = (if b = 0 then NaN else if 0 < b then NegInf else PosInf)"
| "times_number (Fin a) PosInf = (if a = 0 then NaN else if 0 < a then PosInf else NegInf)"
| "times_number (Fin a) NegInf = (if a = 0 then NaN else if 0 < a then NegInf else PosInf)"
| "times_number PosInf PosInf = PosInf"
| "times_number PosInf NegInf = NegInf"
| "times_number NegInf PosInf = NegInf"
| "times_number NegInf NegInf = PosInf"

fun divide_number :: "number \<Rightarrow> number \<Rightarrow> number" where
  "divide_number (Fin a) (Fin b) =
     (if b = 0 then (if a = 0 then NaN else if 0 < a then PosInf else NegInf)
      else Fin (a / b))"
| "divide_number NaN _ = NaN"
| "divide_number _ NaN = NaN"
| "divide_number (Fin a) PosInf = Fin 0"
| "divide_number (Fin a) NegInf = Fin 0"
| "divide_number PosInf (Fin b) = (if 0 \<le> b then PosInf else NegInf)"
| "divide_number NegInf (Fin b) = (if 0 \<le> b then NegInf else PosInf)"
| "divide_number PosInf _ = NaN"
| "divide_number NegInf _ = NaN"

definition inverse_number :: "number \<Rightarrow> number" where
  "inverse_number x = divide (Fin 1) x"

fun less_number :: "number \<Rightarrow> number \<Rightarrow> bool" where
  "less_number (Fin a) (Fin b) = (a < b)"
| "less_number NaN _ = False"
| "less_number _ NaN = False"
| "less_number _ NegInf = False"
| "less_number NegInf _ = True"
| "less_number PosInf _ = False"
| "less_number _ PosInf = True"

fun less_eq_number :: "number \<Rightarrow> number \<Rightarrow> bool" where
  "less_eq_number (Fin a) (Fin b) = (a \<le> b)"
| "less_eq_number NaN _ = False"
| "less_eq_number _ NaN = False"
| "less_eq_number NegInf _ = True"
| "less_eq_number _ NegInf = False"
| "less_eq_number _ PosInf = True"
| "less_eq_number PosInf _ = False"

instance ..

end

text \<open>\<open>Math.abs\<close>, \<open>Math.max\<close>, \<open>Math.sqrt\<close> and \<open>Math.cos\<close>.\<close>

fun Math_abs :: "number \<Rightarrow> number" where
  "Math_abs (Fin a) = Fin \<bar>a\<bar>"
| "Math_abs PosInf = PosInf"
| "Math_abs NegInf = PosInf"
| "Math_abs NaN = NaN"

fun Math_max :: "number \<Rightarrow> number \<Rightarrow> number" where
  "Math_max (Fin a) (Fin b) = Fin (max a b)"
| "Math_max NaN _ = NaN"
| "Math_max _ NaN = NaN"
| "Math_max PosInf _ = PosInf"
| "Math_max _ PosInf = PosInf"
| "Math_max NegInf y = y"
| "Math_max x NegInf = x"

fun Math_sqrt :: "number \<Rightarrow> number" where
  "Math_sqrt (Fin a) = (if a < 0 then NaN else Fin (sqrt a))"
| "Math_sqrt PosInf = PosInf"
| "Math_sqrt NegInf = NaN"
| "Math_sqrt NaN = NaN"

fun Math_cos :: "number \<Rightarrow> number" where
  "Math_cos (Fin a) = Fin (cos a)"
| "Math_cos _ = NaN"

text \<open>
  Truthiness of a \<open>number | null\<close> in a condition: \<open>null\<close>, \<open>0\<close> and NaN are falsy.
\<close>

fun truthy :: "number option \<Rightarrow> bool" where
  "truthy None = False"
| "truthy (Some (Fin a)) = (a \<noteq> 0)"
| "truthy (Some NaN) = False"
| "truthy (Some _) = True"

text \<open>
  Reading a typed array at an integer index: \<open>undefined\<close> (here \<open>None\<close>) outside
  \<open>0 \<le> i < length\<close>.
\<close>

definition elemAt :: "number list \<Rightarrow> int \<Rightarrow> number option" where
  "elemAt xs i = (if 0 \<le> i \<and> i < int (length xs) then Some (xs ! nat i) else None)"

text \<open>\<open>Float32Array.prototype.slice(i, j)\<close> for \<open>0 \<le> i \<le> j\<close>: the end is clamped to the length.\<close>

definition slice :: "number list \<Rightarrow> nat \<Rightarrow> nat \<Rightarrow> number list" where
  "slice xs i j = take (j - i) (drop i xs)"

section \<open>The autocorrelation estimator\<close>

text \<open>
  \<open>autocorrelationPitchDetection(buf, sampleRate)\<close>, stage by stage. The sample rate of
  a decoded \<open>AudioBuffer\<close> is a finite number, so it is a real here.
\<close>

text \<open>The first loop: \<open>max = Math.max(max, Math.abs(buf[i]))\<close>, starting from \<open>0\<close>.\<close>

definition maxAbs :: "number list \<Rightarrow> number" where
  "maxAbs buf = foldl (\<lambda>m x. Math_max m (Math_abs x)) (Fin 0) buf"

text \<open>The second loop: \<open>normalized[i] = buf[i] / max\<close>.\<close>

definition normalizeBuf :: "number list \<Rightarrow> number \<Rightarrow> number list" where
  "normalizeBuf buf m = map (\<lambda>x. x / m) buf"

text \<open>
  The correlation profile has \<open>buf.length / 2\<close> entries (the typed-array constructor
  truncates a fractional length); entry \<open>lag\<close> sums \<open>normalized[i] * normalized[i + lag]\<close>
  over \<open>0 \<le> i < buf.length - lag\<close>.
\<close>

definition correlationAt :: "number list \<Rightarrow> nat \<Rightarrow> number" where
  "correlationAt normalized lag =
     foldl (\<lambda>sum i. sum + normalized ! i * normalized ! (i + lag)) (Fin 0)
       [0 ..< length normalized - lag]"

definition correlate :: "number list \<Rightarrow> number list" where
  "correlate normalized = map (correlationAt normalized) [0 ..< length normalized div 2]"

definition minLag :: "real \<Rightarrow> int" where
  "minLag sampleRate = \<lfloor>sampleRate / 1000\<rfloor>"

text \<open>
  The peak search \<open>for (let i = minLag; i < correlation.length; i++)\<close>, on the pair
  \<open>(peakIndex, maxCorrelation)\<close>. A read at a negative index is \<open>undefined\<close>, and
  \<open>undefined > maxCorrelation\<close> is false.
\<close>

function peakSearch :: "number list \<Rightarrow> int \<Rightarrow> int \<times> number \<Rightarrow> int \<times> number" where
  "peakSearch correlation i (peakIndex, maxCorrelation) =
     (if i < int (length correlation) then
        peakSearch correlation (i + 1)
          (case elemAt correlation i of
             None \<Rightarrow> (peakIndex, maxCorrelation)
           | Some c \<Rightarrow> if maxCorrelation < c then (i, c) else (peakIndex, maxCorrelation))
      else (peakIndex, maxCorrelation))"
  by pat_completeness auto
termination
  by (relation "measure (\<lambda>(correlation, i, _). nat (int (length correlation) - i))") auto

definition findPeak :: "number list \<Rightarrow> real \<Rightarrow> int" where
  "findPeak correlation sampleRate =
     fst (peakSearch correlation (minLag sampleRate) (0, NegInf))"

text \<open>Parabolic interpolation: \<open>peakIndex += offset\<close> for a strictly interior peak.\<close>

definition offset :: "number \<Rightarrow> number \<Rightarrow> number \<Rightarrow> number" where
  "offset alpha beta gamma = (alpha - gamma) / (Fin 2 * (alpha - Fin 2 * beta + gamma))"

definition interpolate :: "number list \<Rightarrow> int \<Rightarrow> number" where
  "interpolate correlation peakIndex =
     (if 0 < peakIndex \<and> peakIndex < int (length correlation) - 1 then
        (let alpha = correlation ! nat (peakIndex - 1);
             beta = correlation ! nat peakIndex;
             gamma = correlation ! nat (peakIndex + 1)
         in Fin (real_of_int peakIndex) + offset alpha beta gamma)
      else Fin (real_of_int peakIndex))"

definition autocorrelationPitchDetection :: "number list \<Rightarrow> real \<Rightarrow> number option" where
  "autocorrelationPitchDetection buf sampleRate =
     (let m = maxAbs buf in
      if m = Fin 0 then None
      else
        (let correlation = correlate (normalizeBuf buf m);
             peakIndex = interpolate correlation (findPeak correlation sampleRate)
         in if Fin 0 < peakIndex then Some (Fin sampleRate / peakIndex) else None))"

section \<open>The analysis pipeline\<close>

definition windowSize :: nat where
  "windowSize = 4096"

definition stepSize :: nat where
  "stepSize = 1024"

definition totalWindows :: "number list \<Rightarrow> int" where
  "totalWindows channelData =
     \<lfloor>(real (length channelData) - real windowSize) / real stepSize\<rfloor>"

text \<open>The Hann taper \<open>applyWindowFunction\<close>.\<close>

definition multiplier :: "nat \<Rightarrow> nat \<Rightarrow> number" where
  "multiplier n i =
     Fin 0.5 * (Fin 1 - Math_cos ((Fin 2 * Fin pi * Fin (real i)) / Fin (real n - 1)))"

definition applyWindowFunction :: "number list \<Rightarrow> number list" where
  "applyWindowFunction buffer =
     map (\<lambda>i. buffer ! i * multiplier (length buffer) i) [0 ..< length buffer]"

definition rms :: "number list \<Rightarrow> number" where
  "rms segment =
     Math_sqrt (foldl (\<lambda>sum x. sum + x * x) (Fin 0) segment / Fin (real (length segment)))"

text \<open>
  The state of one run: the \<open>notes\<close> array that is returned (\<open>notesList\<close>), the counter
  \<open>processedWindows\<close>, and the two effects of the run as traces: the values passed to
  \<open>progressCallback\<close> and the exceptions handed to \<open>console.warn\<close>, each in call order.
\<close>

record 'e run =
  notesList :: "string list"
  processedWindows :: nat
  progress :: "number list"
  warnings :: "'e list"

definition start :: "'e run" where
  "start = \<lparr>notesList = [], processedWindows = 0, progress = [], warnings = []\<rparr>"

text \<open>
  \<open>processedWindows++; if (progressCallback) progressCallback(processedWindows / totalWindows)\<close>.
  The optional callback is the flag \<open>progressCallback\<close>: whether an observer was passed.
\<close>

definition report :: "bool \<Rightarrow> int \<Rightarrow> 'e run \<Rightarrow> 'e run" where
  "report progressCallback totalW st =
     (let st' = st\<lparr>processedWindows := processedWindows st + 1\<rparr> in
      if progressCallback then
        st'\<lparr>progress := progress st' @
               [Fin (real (processedWindows st')) / Fin (real_of_int totalW)]\<rparr>
      else st')"

text \<open>
  The quantizer, lines 45 to 55. \<open>Frequency(pitch).toMidi()\<close> and
  \<open>Frequency(midi, 'midi').toNote()\<close> belong to the library \<open>tone\<close>; they are the
  parameters \<open>toMidi\<close> and \<open>toNote\<close>, and \<open>Inl e\<close> is the exception \<open>e\<close> thrown.
\<close>

definition quantize ::
  "(number \<Rightarrow> 'e + number) \<Rightarrow> (number \<Rightarrow> 'e + string) \<Rightarrow> number option \<Rightarrow> 'e run \<Rightarrow> 'e run" where
  "quantize toMidi toNote pitch st =
     (case pitch of
        None \<Rightarrow> st
      | Some f \<Rightarrow>
          if truthy pitch \<and> Fin 60 < f \<and> f < Fin 1000 then
            (case toMidi f of
               Inl e \<Rightarrow> st\<lparr>warnings := warnings st @ [e]\<rparr>
             | Inr midi \<Rightarrow>
                 if Fin 48 \<le> midi \<and> midi \<le> Fin 84 then
                   (case toNote midi of
                      Inl e \<Rightarrow> st\<lparr>warnings := warnings st @ [e]\<rparr>
                    | Inr note \<Rightarrow> st\<lparr>notesList := notesList st @ [note]\<rparr>)
                 else st)
          else st)"

text \<open>The body of the window loop for one segment.\<close>

definition processWindow ::
  "(number \<Rightarrow> 'e + number) \<Rightarrow> (number \<Rightarrow> 'e + string) \<Rightarrow> bool \<Rightarrow> int \<Rightarrow> real \<Rightarrow>
   number list \<Rightarrow> 'e run \<Rightarrow> 'e run" where
  "processWindow toMidi toNote progressCallback totalW sampleRate segment st =
     (if rms segment < Fin 0.01 then report progressCallback totalW st
      else
        (let pitch = autocorrelationPitchDetection (applyWindowFunction segment) sampleRate
         in report progressCallback totalW (quantize toMidi toNote pitch st)))"

text \<open>
  The loop \<open>for (let i = 0; i < channelData.length - windowSize; i += stepSize)\<close>, for
  any loop body.
\<close>

function windowLoop :: "(nat \<Rightarrow> 's \<Rightarrow> 's) \<Rightarrow> nat \<Rightarrow> nat \<Rightarrow> 's \<Rightarrow> 's" where
  "windowLoop body len i st =
     (if int i < int len - int windowSize then windowLoop body len (i + stepSize) (body i st)
      else st)"
  by pat_completeness auto
termination
  by (relation "measure (\<lambda>(body, len, i, st). len - i)") (auto simp: stepSize_def)

definition analyzePitch ::
  "(number \<Rightarrow> 'e + number) \<Rightarrow> (number \<Rightarrow> 'e + string) \<Rightarrow> bool \<Rightarrow> number list \<Rightarrow> real \<Rightarrow> 'e run" where
  "analyzePitch toMidi toNote progressCallback channelData sampleRate =
     windowLoop
       (\<lambda>i. processWindow toMidi toNote progressCallback (totalWindows channelData) sampleRate
              (slice channelData i (i + windowSize)))
       (length channelData) 0 start"

text \<open>The offsets the loop visits: the loop run with a body that records its index.\<close>

definition analyzedOffsets :: "nat \<Rightarrow> nat list" where
  "analyzedOffsets len = windowLoop (\<lambda>i acc. acc @ [i]) len 0 []"

section \<open>Auxiliary notions for the proofs\<close>

text \<open>
  The number of iterations the window loop makes when it is entered at offset \<open>i\<close>:
  the number of multiples of the step that are below \<open>len - windowSize - i\<close>.
\<close>

definition windowCount :: "nat \<Rightarrow> nat \<Rightarrow> nat" where
  "windowCount len i = (len - windowSize - i + (stepSize - 1)) div stepSize"

text \<open>
  The invariant of the peak search when it has scanned the lags from \<open>lo\<close> up to \<open>i\<close>:
  no scanned entry is greater than \<open>maxCorrelation\<close>, and either nothing has been
  selected yet, or \<open>peakIndex\<close> is a scanned lag holding \<open>maxCorrelation\<close> and no
  earlier scanned entry reaches it.
\<close>

definition best :: "number list \<Rightarrow> int \<Rightarrow> int \<Rightarrow> int \<times> number \<Rightarrow> bool" where
  "best correlation lo i pm =
     (case pm of (p, m) \<Rightarrow>
       (\<forall>j. lo \<le> j \<and> 0 \<le> j \<and> j < i \<and> j < int (length correlation)
            \<longrightarrow> \<not> m < correlation ! nat j) \<and>
       ((p = 0 \<and> m = NegInf) \<or>
        (lo \<le> p \<and> 0 \<le> p \<and> p < i \<and> p < int (length correlation)
         \<and> m = correlation ! nat p \<and> NegInf < m
         \<and> (\<forall>j. lo \<le> j \<and> 0 \<le> j \<and> j < p \<longrightarrow> \<not> m \<le> correlation ! nat j))))"

declare windowLoop.simps [simp del]

declare peakSearch.simps [simp del]

section \<open>Facts about numbers\<close>

lemma number_less_irrefl: "\<not> (x::number) < x"
  by (cases x) simp_all

lemma number_less_trans: "(x::number) < y \<Longrightarrow> y < z \<Longrightarrow> x < z"
  by (cases x; cases y; cases z) simp_all

lemma number_less_le_trans: "(x::number) < y \<Longrightarrow> y \<le> z \<Longrightarrow> x < z"
  by (cases x; cases y; cases z) simp_all

lemma number_less_NegInf: "(x::number) < y \<Longrightarrow> NegInf < y"
  by (cases x; cases y) simp_all

section \<open>The window loop\<close>

lemma count_step: "0 < (x::nat) \<Longrightarrow> (x + 1023) div 1024 = Suc ((x - 1024 + 1023) div 1024)"
proof (cases "1024 \<le> x")
  case True
  then have "x + 1023 = (x - 1024 + 1023) + 1024" by simp
  then have "(x + 1023) div 1024 = ((x - 1024 + 1023) + 1024) div 1024" by simp
  also have "\<dots> = Suc ((x - 1024 + 1023) div 1024)" by (simp only: div_add_self2)
  finally show ?thesis .
next
  case False
  assume "0 < x"
  with False have "x + 1023 = (x - 1) + 1024" and "x - 1 < 1024" by simp_all
  then have "(x + 1023) div 1024 = Suc ((x - 1) div 1024)" and "(x - 1) div 1024 = 0"
    by (simp_all only: div_add_self2 div_less)
  with False show ?thesis by simp
qed

lemma windowCount_step:
  assumes "int i < int len - int windowSize"
  shows "windowCount len i = Suc (windowCount len (i + stepSize))"
proof -
  have "0 < len - 4096 - i" using assms by (simp add: windowSize_def)
  from count_step[OF this] show ?thesis
    by (simp add: windowCount_def windowSize_def stepSize_def)
qed

lemma windowCount_stop:
  "\<not> int i < int len - int windowSize \<Longrightarrow> windowCount len i = 0"
  unfolding windowCount_def windowSize_def stepSize_def by simp

lemma windowLoop_foldl:
  "windowLoop body len i st =
     foldl (\<lambda>s j. body j s) st (map (\<lambda>k. i + k * stepSize) [0 ..< windowCount len i])"
proof (induction body len i st rule: windowLoop.induct)
  case (1 body len i st)
  show ?case
  proof (cases "int i < int len - int windowSize")
    case True
    have "map (\<lambda>k. i + k * stepSize) [0 ..< windowCount len i]
        = i # map (\<lambda>k. (i + stepSize) + k * stepSize) [0 ..< windowCount len (i + stepSize)]"
    proof -
      have "[0 ..< Suc n] = 0 # map Suc [0 ..< n]" for n
        by (simp only: upt_conv_Cons[OF zero_less_Suc] map_Suc_upt)
      then show ?thesis
        by (simp add: windowCount_step[OF True] comp_def del: upt_Suc)
    qed
    moreover have "windowLoop body len i st = windowLoop body len (i + stepSize) (body i st)"
      using True by (subst windowLoop.simps) simp
    ultimately show ?thesis using "1.IH"[OF True] by simp
  next
    case False
    then have "windowLoop body len i st = st"
      by (subst windowLoop.simps) simp
    with False show ?thesis by (simp add: windowCount_stop)
  qed
qed

lemma analyzedOffsets_eq:
  "analyzedOffsets len = map (\<lambda>k. k * stepSize) [0 ..< windowCount len 0]"
proof -
  have "foldl (\<lambda>s j. s @ [j]) acc xs = acc @ xs" for acc xs :: "nat list"
    by (induction xs arbitrary: acc) simp_all
  then show ?thesis
    unfolding analyzedOffsets_def windowLoop_foldl by simp
qed


lemma upt_Suc_front: "[0 ..< Suc n] = 0 # map Suc [0 ..< n]"
  by (simp only: upt_conv_Cons[OF zero_less_Suc] map_Suc_upt)

lemma analyzePitch_foldl:
  "analyzePitch toMidi toNote progressCallback channelData sampleRate =
     foldl (\<lambda>st i. processWindow toMidi toNote progressCallback (totalWindows channelData)
                     sampleRate (slice channelData i (i + windowSize)) st)
       start (analyzedOffsets (length channelData))"
  unfolding analyzePitch_def windowLoop_foldl analyzedOffsets_eq by simp

lemma quantize_counters:
  "processedWindows (quantize toMidi toNote pitch st) = processedWindows st"
  "progress (quantize toMidi toNote pitch st) = progress st"
  by (simp_all add: quantize_def split: option.splits sum.splits)

lemma report_fields:
  "processedWindows (report cb t st) = Suc (processedWindows st)"
  "progress (report cb t st) =
     progress st @ (if cb then [Fin (real (Suc (processedWindows st))) / Fin (real_of_int t)] else [])"
  "notesList (report cb t st) = notesList st"
  "warnings (report cb t st) = warnings st"
  by (simp_all add: report_def Let_def)

lemma processWindow_counters:
  "processedWindows (processWindow toMidi toNote cb t sr segment st) = Suc (processedWindows st)"
  "progress (processWindow toMidi toNote cb t sr segment st) =
     progress st @ (if cb then [Fin (real (Suc (processedWindows st))) / Fin (real_of_int t)] else [])"
  by (simp_all add: processWindow_def Let_def report_fields quantize_counters)

lemma foldl_counters:
  fixes f :: "nat \<Rightarrow> number list"
  shows "processedWindows (foldl (\<lambda>st i. processWindow toMidi toNote cb t sr (f i) st) st js)
           = processedWindows st + length js"
    and "progress (foldl (\<lambda>st i. processWindow toMidi toNote cb t sr (f i) st) st js) =
          progress st @ (if cb then map (\<lambda>k. Fin (real (processedWindows st + k + 1)) / Fin (real_of_int t))
                                     [0 ..< length js] else [])"
proof (induction js arbitrary: st)
  case Nil
  { case 1 show ?case by simp }
  { case 2 show ?case by simp }
next
  case (Cons j js)
  { case 1 show ?case by (simp add: Cons.IH(1) processWindow_counters) }
  { case 2 show ?case
      by (simp add: Cons.IH(2) processWindow_counters upt_Suc_front comp_def del: upt_Suc) }
qed

lemma run_counters:
  "processedWindows (analyzePitch toMidi toNote cb channelData sampleRate)
     = windowCount (length channelData) 0"
  "progress (analyzePitch toMidi toNote cb channelData sampleRate) =
     (if cb then map (\<lambda>k. Fin (real (k + 1)) / Fin (real_of_int (totalWindows channelData)))
                  [0 ..< windowCount (length channelData) 0] else [])"
  unfolding analyzePitch_foldl
  using foldl_counters[of toMidi toNote cb "totalWindows channelData" sampleRate
      "\<lambda>i. slice channelData i (i + windowSize)" start "analyzedOffsets (length channelData)"]
  by (simp_all add: analyzedOffsets_eq start_def)

text \<open>The iteration count is the ceiling of \<open>(len - windowSize) / stepSize\<close>.\<close>

lemma ceil_count: "- (- int x div 1024) = int ((x + 1023) div 1024)"
  by (simp add: zdiv_int)

lemma ceil_real: "\<lceil>real x / 1024\<rceil> = int ((x + 1023) div 1024)"
proof -
  have "\<lceil>real_of_int (int x) / real_of_int 1024\<rceil> = - (- int x div 1024)"
    by (rule ceiling_divide_eq_div)
  then show ?thesis by (simp only: ceil_count of_int_of_nat_eq of_int_numeral)
qed

lemma windowCount_ceiling:
  "int (windowCount len 0) =
     (if windowSize < len then \<lceil>(real len - real windowSize) / real stepSize\<rceil> else 0)"
proof (cases "windowSize < len")
  case True
  then have "real len - real windowSize = real (len - windowSize)"
    by simp
  then have "\<lceil>(real len - real windowSize) / real stepSize\<rceil> = \<lceil>real (len - windowSize) / 1024\<rceil>"
    by (simp only: stepSize_def of_nat_numeral)
  also have "\<dots> = int ((len - windowSize + 1023) div 1024)"
    by (rule ceil_real)
  finally show ?thesis using True by (simp add: windowCount_def stepSize_def)
next
  case False
  then show ?thesis by (simp add: windowCount_def stepSize_def)
qed

lemma count_less: "k < (x + 1023) div 1024 \<longleftrightarrow> k * 1024 < (x::nat)"
proof -
  have "k < (x + 1023) div 1024 \<longleftrightarrow> Suc k \<le> (x + 1023) div 1024" by auto
  also have "\<dots> \<longleftrightarrow> Suc k * 1024 \<le> x + 1023"
    by (simp only: less_eq_div_iff_mult_less_eq zero_less_numeral)
  also have "\<dots> \<longleftrightarrow> k * 1024 < x" by auto
  finally show ?thesis .
qed

lemma analyzedOffsets_member:
  "k * stepSize \<in> set (analyzedOffsets len) \<longleftrightarrow> k * stepSize + windowSize < len"
proof -
  have "k * stepSize \<in> set (analyzedOffsets len) \<longleftrightarrow> k < windowCount len 0"
    by (auto simp: analyzedOffsets_eq stepSize_def)
  also have "\<dots> \<longleftrightarrow> k * 1024 < len - windowSize"
    unfolding windowCount_def stepSize_def using count_less[of k "len - windowSize"] by simp
  also have "\<dots> \<longleftrightarrow> k * stepSize + windowSize < len"
    unfolding stepSize_def by auto
  finally show ?thesis .
qed

lemma analyzedOffsets_length: "length (analyzedOffsets len) = windowCount len 0"
  by (simp add: analyzedOffsets_eq)

text \<open>
  A buffer that holds no window beyond its first \<open>windowSize\<close> samples is not analysed
  at all, and its \<open>totalWindows\<close> is not positive.
\<close>

lemma short_buffer:
  assumes "length channelData \<le> windowSize"
  shows "analyzePitch toMidi toNote cb channelData sampleRate = start"
    and "totalWindows channelData \<le> 0"
proof -
  have "windowCount (length channelData) 0 = 0"
    using assms by (simp add: windowCount_def windowSize_def stepSize_def)
  then show "analyzePitch toMidi toNote cb channelData sampleRate = start"
    by (simp add: analyzePitch_foldl analyzedOffsets_eq)
  show "totalWindows channelData \<le> 0"
    using assms by (simp add: totalWindows_def windowSize_def stepSize_def floor_le_iff)
qed

text \<open>
  When the samples after the first window are a whole number \<open>n > 0\<close> of steps, the
  loop makes \<open>n = totalWindows\<close> iterations and the observer receives
  \<open>1/n, 2/n, \<dots>, n/n\<close>.
\<close>

lemma aligned_buffer:
  assumes "length channelData = windowSize + n * stepSize" and "0 < n"
  shows "totalWindows channelData = int n"
    and "progress (analyzePitch toMidi toNote True channelData sampleRate)
           = map (\<lambda>k. Fin (real (k + 1) / real n)) [0 ..< n]"
proof -
  have c: "windowCount (length channelData) 0 = n"
    using assms by (simp add: windowCount_def windowSize_def stepSize_def)
  show t: "totalWindows channelData = int n"
    using assms by (simp add: totalWindows_def windowSize_def stepSize_def)
  show "progress (analyzePitch toMidi toNote True channelData sampleRate)
           = map (\<lambda>k. Fin (real (k + 1) / real n)) [0 ..< n]"
    using assms(2) by (simp add: run_counters c t)
qed

text \<open>
  C4, as the code has it. The loop condition is \<open>i < length - windowSize\<close>: exactly one
  window is analysed per offset \<open>0, S, 2S, \<dots>\<close> with \<open>offset + W < length\<close> (strictly),
  in increasing order, and no other. Their number is the ceiling of \<open>(length - W) / S\<close>
  when \<open>length > W\<close> and zero otherwise; the run is the fold of the loop body over these
  offsets, and \<open>processedWindows\<close> ends as their number.
\<close>

theorem windows_analyzed:
  "analyzedOffsets len = map (\<lambda>k. k * stepSize) [0 ..< length (analyzedOffsets len)]
   \<and> (k * stepSize \<in> set (analyzedOffsets len) \<longleftrightarrow> k * stepSize + windowSize < len)
   \<and> int (length (analyzedOffsets len)) =
       (if windowSize < len then \<lceil>(real len - real windowSize) / real stepSize\<rceil> else 0)
   \<and> analyzePitch toMidi toNote progressCallback channelData sampleRate =
       foldl (\<lambda>st i. processWindow toMidi toNote progressCallback (totalWindows channelData)
                       sampleRate (slice channelData i (i + windowSize)) st)
         start (analyzedOffsets (length channelData))
   \<and> processedWindows (analyzePitch toMidi toNote progressCallback channelData sampleRate) =
       length (analyzedOffsets (length channelData))"
proof -
  have "analyzedOffsets len = map (\<lambda>k. k * stepSize) [0 ..< length (analyzedOffsets len)]"
    by (simp only: analyzedOffsets_length) (rule analyzedOffsets_eq)
  moreover have "int (length (analyzedOffsets len)) =
       (if windowSize < len then \<lceil>(real len - real windowSize) / real stepSize\<rceil> else 0)"
    by (simp only: analyzedOffsets_length windowCount_ceiling)
  moreover have "processedWindows (analyzePitch toMidi toNote progressCallback channelData sampleRate) =
       length (analyzedOffsets (length channelData))"
    by (simp only: analyzedOffsets_length run_counters(1))
  ultimately show ?thesis
    using analyzedOffsets_member[of k len]
      analyzePitch_foldl[of toMidi toNote progressCallback channelData sampleRate]
    by blast
qed

lemma offsets_5120: "analyzedOffsets 5120 = [0]"
  by (simp add: analyzedOffsets_eq windowCount_def windowSize_def stepSize_def)

lemma offsets_6000: "analyzedOffsets 6000 = [0, 1024]"
  by (simp add: analyzedOffsets_eq windowCount_def windowSize_def stepSize_def upt_rec)

text \<open>
  Against C4 as stated: with 5120 samples the offset 1024 satisfies
  \<open>offset + W \<le> length\<close> but only offset 0 is analysed; with 6000 samples two windows
  are analysed while \<open>floor((length - W) / S)\<close> is 1.
\<close>

theorem windows_analyzed_counterexample:
  "analyzedOffsets 5120 = [0] \<and> 1024 + windowSize \<le> 5120
   \<and> analyzedOffsets 6000 = [0, 1024] \<and> \<lfloor>(6000 - real windowSize) / real stepSize\<rfloor> = 1
   \<and> processedWindows (analyzePitch (\<lambda>f. Inr f) (\<lambda>m. Inr ''C4'') False
        (replicate 6000 (Fin 0)) 44100 :: unit run) = 2"
  by (simp add: offsets_5120 offsets_6000 run_counters windowCount_def windowSize_def stepSize_def)

text \<open>
  C2 at a buffer of 5121 samples, with an observer: \<open>totalWindows\<close> is 1, the loop
  runs at offsets 0 and 1024, and the observer receives \<open>1\<close> and then \<open>2\<close>. The last
  progress value is not \<open>1.0\<close> and the observer is called twice, not \<open>totalWindows\<close>
  times.
\<close>

theorem progress_overshoot:
  "totalWindows (replicate 5121 (Fin 0)) = 1 \<and>
   progress (analyzePitch toMidi toNote True (replicate 5121 (Fin 0)) sampleRate) = [Fin 1, Fin 2]"
  by (simp add: run_counters totalWindows_def windowCount_def windowSize_def stepSize_def upt_rec)

text \<open>
  C3 at a buffer of 4097 samples, with an observer: \<open>totalWindows\<close> is 0, yet the loop
  runs once (at offset 0) and the observer receives \<open>1 / 0 = Infinity\<close>.
\<close>

theorem progress_infinite:
  "totalWindows (replicate 4097 (Fin 0)) = 0 \<and>
   progress (analyzePitch toMidi toNote True (replicate 4097 (Fin 0)) sampleRate) = [PosInf]"
  by (simp add: run_counters totalWindows_def windowCount_def windowSize_def stepSize_def)

section \<open>The correlation profile\<close>

text \<open>
  Past the zero-maximum guard no entry of the correlation profile is an infinity: the
  normalized samples are finite or NaN, and so are the sums of their products.
\<close>

lemma maxAbs_Fin_samples:
  assumes "foldl (\<lambda>m x. Math_max m (Math_abs x)) acc xs = Fin v"
  shows "acc \<noteq> PosInf \<and> acc \<noteq> NaN \<and> (\<forall>x\<in>set xs. \<exists>a. x = Fin a)"
  using assms
proof (induction xs arbitrary: acc)
  case Nil
  then show ?case by simp
next
  case (Cons x xs)
  from Cons.prems have "foldl (\<lambda>m x. Math_max m (Math_abs x)) (Math_max acc (Math_abs x)) xs = Fin v"
    by simp
  from Cons.IH[OF this] have u: "Math_max acc (Math_abs x) \<noteq> PosInf"
    "Math_max acc (Math_abs x) \<noteq> NaN"
    and rest: "\<forall>x\<in>set xs. \<exists>a. x = Fin a" by blast+
  from u have "acc \<noteq> PosInf \<and> acc \<noteq> NaN \<and> (\<exists>a. x = Fin a)"
    by (cases acc; cases x) simp_all
  with rest show ?case by simp
qed

lemma divide_never_infinite:
  assumes "m \<noteq> Fin 0" and "\<forall>v. m = Fin v \<longrightarrow> (\<exists>a. x = Fin a)"
  shows "x / m \<noteq> PosInf \<and> x / m \<noteq> NegInf"
  using assms by (cases x; cases m) auto

lemma plus_times_never_infinite:
  assumes "s \<noteq> PosInf \<and> s \<noteq> NegInf" "x \<noteq> PosInf \<and> x \<noteq> NegInf" "y \<noteq> PosInf \<and> y \<noteq> NegInf"
  shows "s + x * y \<noteq> PosInf \<and> s + x * y \<noteq> NegInf"
  using assms by (cases s; cases x; cases y) simp_all

lemma sum_never_infinite:
  assumes "s \<noteq> PosInf \<and> s \<noteq> NegInf"
    and "\<forall>i\<in>set is. i + lag < length ys"
    and "\<forall>y\<in>set ys. y \<noteq> PosInf \<and> y \<noteq> NegInf"
  shows "foldl (\<lambda>sum i. sum + ys ! i * ys ! (i + lag)) s is \<noteq> PosInf
       \<and> foldl (\<lambda>sum i. sum + ys ! i * ys ! (i + lag)) s is \<noteq> NegInf"
  using assms
proof (induction "is" arbitrary: s)
  case Nil
  then show ?case by simp
next
  case (Cons i "is")
  have "i < length ys" "i + lag < length ys" using Cons.prems(2) by auto
  then have "ys ! i \<noteq> PosInf \<and> ys ! i \<noteq> NegInf" "ys ! (i + lag) \<noteq> PosInf \<and> ys ! (i + lag) \<noteq> NegInf"
    using Cons.prems(3) by (meson nth_mem)+
  from plus_times_never_infinite[OF Cons.prems(1) this]
  have "s + ys ! i * ys ! (i + lag) \<noteq> PosInf \<and> s + ys ! i * ys ! (i + lag) \<noteq> NegInf" .
  from Cons.IH[OF this] Cons.prems(2,3) show ?case by simp
qed

lemma profile_never_infinite:
  assumes "maxAbs buf \<noteq> Fin 0"
    and "c \<in> set (correlate (normalizeBuf buf (maxAbs buf)))"
  shows "c \<noteq> PosInf \<and> c \<noteq> NegInf"
proof -
  let ?ys = "normalizeBuf buf (maxAbs buf)"
  have fin: "\<forall>v. maxAbs buf = Fin v \<longrightarrow> (\<forall>x\<in>set buf. \<exists>a. x = Fin a)"
    using maxAbs_Fin_samples[of "Fin 0" buf] by (simp add: maxAbs_def)
  have ys: "\<forall>y\<in>set ?ys. y \<noteq> PosInf \<and> y \<noteq> NegInf"
    using divide_never_infinite[OF assms(1)] fin by (auto simp: normalizeBuf_def)
  from assms(2) obtain lag where "c = correlationAt ?ys lag"
    by (auto simp: correlate_def)
  moreover have "\<forall>i\<in>set [0 ..< length ?ys - lag]. i + lag < length ?ys" by auto
  ultimately show ?thesis
    unfolding correlationAt_def using sum_never_infinite[OF _ _ ys, of "Fin 0" _ lag] by simp
qed

section \<open>Sub-sample refinement\<close>

text \<open>
  A zero denominator arises only from three finite correlation values on a straight
  line; the quotient is then an infinity or NaN.
\<close>

lemma zero_denominator_finite:
  assumes "Fin 2 * (x - Fin 2 * y + z) = Fin 0"
  shows "\<exists>a b c. x = Fin a \<and> y = Fin b \<and> z = Fin c \<and> a - 2 * b + c = 0"
  using assms by (cases x; cases y; cases z) (simp_all add: minus_number_def split: if_splits)

lemma offset_zero_denominator:
  assumes "Fin 2 * (x - Fin 2 * y + z) = Fin 0"
  shows "offset x y z = (if z < x then PosInf else if x < z then NegInf else NaN)"
proof -
  from zero_denominator_finite[OF assms] obtain a b c
    where "x = Fin a" "y = Fin b" "z = Fin c" "a - 2 * b + c = 0" by blast
  then show ?thesis by (simp add: offset_def minus_number_def)
qed

text \<open>
  C1, as the code has it. The interpolation has no guard on its denominator. When the
  located peak \<open>p\<close> is strictly interior and the denominator
  \<open>2 * (corr[p-1] - 2 * corr[p] + corr[p+1])\<close> is zero, the offset is \<open>+Infinity\<close>,
  \<open>-Infinity\<close> or NaN, and the estimator returns \<open>0\<close> when the left neighbour is
  greater than the right one and \<open>null\<close> otherwise. It does not return
  \<open>sampleRate / p\<close>.
\<close>

theorem zero_denominator_unguarded:
  assumes "maxAbs buf \<noteq> Fin 0"
    and "correlation = correlate (normalizeBuf buf (maxAbs buf))"
    and "p = findPeak correlation sampleRate"
    and "0 < p" and "p < int (length correlation) - 1"
    and "Fin 2 * (correlation ! nat (p - 1) - Fin 2 * correlation ! nat p
            + correlation ! nat (p + 1)) = Fin 0"
  shows "autocorrelationPitchDetection buf sampleRate =
           (if correlation ! nat (p + 1) < correlation ! nat (p - 1) then Some (Fin 0) else None)"
proof -
  have "interpolate correlation p =
      Fin (real_of_int p) +
        (if correlation ! nat (p + 1) < correlation ! nat (p - 1) then PosInf
         else if correlation ! nat (p - 1) < correlation ! nat (p + 1) then NegInf else NaN)"
    using assms(4,5) offset_zero_denominator[OF assms(6)] by (simp add: interpolate_def Let_def)
  then show ?thesis
    using assms(1,2,3) by (simp add: autocorrelationPitchDetection_def Let_def)
qed

text \<open>
  The theorem at the constant buffer of eight samples \<open>1\<close> with sample rate 1000: the
  profile is \<open>8, 7, 6, 5\<close>, the search starts at lag 1 and stays there, and the three
  values \<open>8, 7, 6\<close> lie on a line.
\<close>

theorem zero_denominator_unguarded_witness:
  "maxAbs (replicate 8 (Fin 1)) \<noteq> Fin 0
   \<and> correlate (normalizeBuf (replicate 8 (Fin 1)) (maxAbs (replicate 8 (Fin 1))))
       = [Fin 8, Fin 7, Fin 6, Fin 5]
   \<and> findPeak [Fin 8, Fin 7, Fin 6, Fin 5] 1000 = 1
   \<and> Fin 2 * (Fin 8 - Fin 2 * Fin 7 + Fin 6) = Fin 0
   \<and> autocorrelationPitchDetection (replicate 8 (Fin 1)) 1000 = Some (Fin 0)"
proof -
  have m: "maxAbs (replicate 8 (Fin 1)) \<noteq> Fin 0"
    by code_simp
  have c: "[Fin 8, Fin 7, Fin 6, Fin 5]
      = correlate (normalizeBuf (replicate 8 (Fin 1)) (maxAbs (replicate 8 (Fin 1))))"
    by code_simp
  have p: "(1::int) = findPeak [Fin 8, Fin 7, Fin 6, Fin 5] 1000"
    by code_simp
  have i1: "(0::int) < 1" and i2: "(1::int) < int (length [Fin 8, Fin 7, Fin 6, Fin 5]) - 1"
    by simp_all
  have d: "Fin 2 * ([Fin 8, Fin 7, Fin 6, Fin 5] ! nat (1 - 1)
      - Fin 2 * [Fin 8, Fin 7, Fin 6, Fin 5] ! nat 1
      + [Fin 8, Fin 7, Fin 6, Fin 5] ! nat (1 + 1)) = Fin 0"
    by (simp add: minus_number_def)
  have d': "Fin 2 * (Fin 8 - Fin 2 * Fin 7 + Fin 6) = Fin 0"
    by (simp add: minus_number_def)
  have "autocorrelationPitchDetection (replicate 8 (Fin 1)) 1000 = Some (Fin 0)"
    using zero_denominator_unguarded[OF m c p i1 i2 d] by simp
  with m c p d' show ?thesis by simp
qed

text \<open>
  Against C1 as stated: at that buffer the peak lag is 1 and the denominator is zero, yet
  the estimate is \<open>0\<close>, not \<open>sampleRate / 1 = 1000\<close>.
\<close>

theorem zero_denominator_counterexample:
  "findPeak (correlate (normalizeBuf (replicate 8 (Fin 1)) (maxAbs (replicate 8 (Fin 1))))) 1000 = 1
   \<and> correlate (normalizeBuf (replicate 8 (Fin 1)) (maxAbs (replicate 8 (Fin 1))))
       = [Fin 8, Fin 7, Fin 6, Fin 5]
   \<and> Fin 2 * (Fin 8 - Fin 2 * Fin 7 + Fin 6) = Fin 0
   \<and> autocorrelationPitchDetection (replicate 8 (Fin 1)) 1000 = Some (Fin 0)
   \<and> autocorrelationPitchDetection (replicate 8 (Fin 1)) 1000 \<noteq> Some (Fin 1000 / Fin 1)"
  by code_simp

text \<open>The interpolation at a peak with finite neighbours.\<close>

lemma interpolate_symmetric:
  assumes "0 < p" "p < int (length correlation) - 1"
    and "correlation ! nat (p - 1) = Fin a" "correlation ! nat p = Fin b" "correlation ! nat (p + 1) = Fin c"
    and "a = c" and "2 * (a - 2 * b + c) \<noteq> 0"
  shows "interpolate correlation p = Fin (real_of_int p)"
  using assms by (simp add: interpolate_def offset_def minus_number_def Let_def)

lemma offset_bound:
  fixes a b c :: real
  assumes "a \<le> b" "c \<le> b" "a \<noteq> c"
  shows "\<bar>(a - c) / (2 * (a - 2 * b + c))\<bar> \<le> 1 / 2"
    and "a < c \<Longrightarrow> 0 < (a - c) / (2 * (a - 2 * b + c))"
    and "c < a \<Longrightarrow> (a - c) / (2 * (a - 2 * b + c)) < 0"
    and "a - 2 * b + c \<noteq> 0"
proof -
  have d: "a - 2 * b + c < 0" using assms by linarith
  then show "a - 2 * b + c \<noteq> 0" by simp
  have "\<bar>a - c\<bar> \<le> - (a - 2 * b + c)" using assms by linarith
  then have "\<bar>a - c\<bar> / \<bar>2 * (a - 2 * b + c)\<bar> \<le> 1 / 2"
    using d by (simp add: field_simps abs_if split: if_splits)
  then show "\<bar>(a - c) / (2 * (a - 2 * b + c))\<bar> \<le> 1 / 2" by (simp only: abs_divide)
  show "0 < (a - c) / (2 * (a - 2 * b + c))" if "a < c"
    using that d by (simp add: divide_neg_neg)
  show "(a - c) / (2 * (a - 2 * b + c)) < 0" if "c < a"
    using that d by (simp add: divide_pos_neg)
qed

lemma interpolate_asymmetric:
  assumes "0 < p" "p < int (length correlation) - 1"
    and "correlation ! nat (p - 1) = Fin a" "correlation ! nat p = Fin b" "correlation ! nat (p + 1) = Fin c"
    and "a \<le> b" "c \<le> b" "a \<noteq> c"
  shows "\<exists>r. interpolate correlation p = Fin r \<and> real_of_int p - 1 < r \<and> r < real_of_int p + 1
             \<and> (a < c \<longrightarrow> real_of_int p < r) \<and> (c < a \<longrightarrow> r < real_of_int p)"
proof -
  define off where "off = (a - c) / (2 * (a - 2 * b + c))"
  have i: "interpolate correlation p = Fin (real_of_int p + off)"
    using assms(1-5) offset_bound(4)[OF assms(6-8)]
    by (simp add: interpolate_def offset_def minus_number_def Let_def off_def)
  have 1: "\<bar>off\<bar> \<le> 1 / 2" unfolding off_def by (rule offset_bound(1)[OF assms(6-8)])
  have 2: "a < c \<longrightarrow> 0 < off" unfolding off_def using offset_bound(2)[OF assms(6-8)] by blast
  have 3: "c < a \<longrightarrow> off < 0" unfolding off_def using offset_bound(3)[OF assms(6-8)] by blast
  have "real_of_int p - 1 < real_of_int p + off \<and> real_of_int p + off < real_of_int p + 1
      \<and> (a < c \<longrightarrow> real_of_int p < real_of_int p + off)
      \<and> (c < a \<longrightarrow> real_of_int p + off < real_of_int p)"
    using 1 2 3 by (auto simp: abs_if split: if_splits)
  with i show ?thesis by blast
qed

text \<open>
  C9. Let the peak \<open>p\<close> be strictly interior with finite values \<open>a, b, c\<close> at
  \<open>p - 1, p, p + 1\<close>. If the neighbours are equal and the denominator is not zero, the
  refined lag is exactly \<open>p\<close>. If \<open>b\<close> is a peak (no neighbour exceeds it) and the
  neighbours differ, the refined lag is a finite number strictly between \<open>p - 1\<close> and
  \<open>p + 1\<close>, above \<open>p\<close> when the right neighbour is the larger one and below \<open>p\<close> when
  the left one is.
\<close>

theorem parabolic_refinement:
  assumes "0 < p" and "p < int (length correlation) - 1"
    and "correlation ! nat (p - 1) = Fin a"
    and "correlation ! nat p = Fin b"
    and "correlation ! nat (p + 1) = Fin c"
  shows "(a = c \<and> 2 * (a - 2 * b + c) \<noteq> 0 \<longrightarrow> interpolate correlation p = Fin (real_of_int p))
    \<and> (a \<le> b \<and> c \<le> b \<and> a \<noteq> c \<longrightarrow>
         (\<exists>r. interpolate correlation p = Fin r
              \<and> real_of_int p - 1 < r \<and> r < real_of_int p + 1
              \<and> (a < c \<longrightarrow> real_of_int p < r) \<and> (c < a \<longrightarrow> r < real_of_int p)))"
  using interpolate_symmetric[OF assms] interpolate_asymmetric[OF assms] by blast

text \<open>
  The theorem at the two profiles of the specification: \<open>0.5, 1.0, 0.5\<close> around lag 2
  gives exactly 2, and \<open>0.3, 1.0, 0.6\<close> gives a lag between 2 and 3.
\<close>

theorem parabolic_refinement_witness:
  "interpolate [Fin 0, Fin 0.5, Fin 1, Fin 0.5, Fin 0] 2 = Fin 2
   \<and> (\<exists>r. interpolate [Fin 0, Fin 0.3, Fin 1, Fin 0.6, Fin 0] 2 = Fin r \<and> 2 < r \<and> r < 3)"
proof -
  have "interpolate [Fin 0, Fin 0.5, Fin 1, Fin 0.5, Fin 0] 2 = Fin (real_of_int 2)"
    using parabolic_refinement[where p = 2 and correlation = "[Fin 0, Fin 0.5, Fin 1, Fin 0.5, Fin 0]"
        and a = "0.5" and b = 1 and c = "0.5"]
    by simp
  moreover have "\<exists>r. interpolate [Fin 0, Fin 0.3, Fin 1, Fin 0.6, Fin 0] 2 = Fin r
              \<and> real_of_int 2 - 1 < r \<and> r < real_of_int 2 + 1
              \<and> ((0.3::real) < 0.6 \<longrightarrow> real_of_int 2 < r) \<and> ((0.6::real) < 0.3 \<longrightarrow> r < real_of_int 2)"
    using parabolic_refinement[where p = 2 and correlation = "[Fin 0, Fin 0.3, Fin 1, Fin 0.6, Fin 0]"
        and a = "0.3" and b = 1 and c = "0.6"]
    by simp
  ultimately show ?thesis by auto
qed

text \<open>
  The search keeps the largest entry among the lags from \<open>minLag\<close> on, so when it
  stops at \<open>minLag\<close> itself the entry to the left may be larger than the one selected.
  The three values are then not a peak and the refined lag can leave the interval: for
  the ramp \<open>1, \<dots>, 8\<close> at sample rate 1000 the search selects lag 1 and the refined
  lag is 36.5.
\<close>

lemma refinement_at_search_floor:
  "findPeak (correlate (normalizeBuf [Fin 1, Fin 2, Fin 3, Fin 4, Fin 5, Fin 6, Fin 7, Fin 8] (Fin 8))) 1000 = 1
   \<and> interpolate (correlate (normalizeBuf [Fin 1, Fin 2, Fin 3, Fin 4, Fin 5, Fin 6, Fin 7, Fin 8] (Fin 8))) 1
       = Fin (73 / 2)"
  by code_simp

section \<open>The peak search\<close>

lemma best_step:
  assumes "best correlation lo i (p, m)" and "lo \<le> i" and "i < int (length correlation)"
  shows "best correlation lo (i + 1)
           (case elemAt correlation i of
              None \<Rightarrow> (p, m)
            | Some c \<Rightarrow> if m < c then (i, c) else (p, m))"
proof (cases "0 \<le> i")
  case False
  then have "elemAt correlation i = None" by (simp add: elemAt_def)
  moreover have "best correlation lo (i + 1) (p, m)"
    using assms(1) False unfolding best_def
    by (auto simp: less_le dest: spec)
  ultimately show ?thesis by simp
next
  case True
  with assms(3) have at: "elemAt correlation i = Some (correlation ! nat i)"
    by (simp add: elemAt_def)
  let ?c = "correlation ! nat i"
  have old: "\<forall>j. lo \<le> j \<and> 0 \<le> j \<and> j < i \<and> j < int (length correlation) \<longrightarrow> \<not> m < correlation ! nat j"
    using assms(1) by (simp add: best_def)
  show ?thesis
  proof (cases "m < ?c")
    case less: True
    have "\<not> ?c < correlation ! nat j" if "lo \<le> j \<and> 0 \<le> j \<and> j < i + 1 \<and> j < int (length correlation)" for j
    proof (cases "j = i")
      case True
      then show ?thesis by (simp add: number_less_irrefl)
    next
      case False
      with that old have "\<not> m < correlation ! nat j" by simp
      then show ?thesis using less number_less_trans by blast
    qed
    moreover have "\<not> ?c \<le> correlation ! nat j" if "lo \<le> j \<and> 0 \<le> j \<and> j < i" for j
    proof -
      from that assms(3) old have "\<not> m < correlation ! nat j" by simp
      then show ?thesis using less number_less_le_trans by blast
    qed
    moreover have "NegInf < ?c" using less by (rule number_less_NegInf)
    ultimately have "best correlation lo (i + 1) (i, ?c)"
      unfolding best_def using assms(2,3) True by simp
    with at less show ?thesis by simp
  next
    case nless: False
    have "\<not> m < correlation ! nat j" if "lo \<le> j \<and> 0 \<le> j \<and> j < i + 1 \<and> j < int (length correlation)" for j
      using that old nless by (cases "j = i") simp_all
    moreover have "(p = 0 \<and> m = NegInf) \<or>
        (lo \<le> p \<and> 0 \<le> p \<and> p < i + 1 \<and> p < int (length correlation) \<and> m = correlation ! nat p \<and> NegInf < m \<and>
         (\<forall>j. lo \<le> j \<and> 0 \<le> j \<and> j < p \<longrightarrow> \<not> m \<le> correlation ! nat j))"
      using assms(1) unfolding best_def by auto
    ultimately have "best correlation lo (i + 1) (p, m)"
      unfolding best_def by simp
    with at nless show ?thesis by simp
  qed
qed

lemma peakSearch_best:
  assumes "best correlation lo i pm" and "lo \<le> i"
  shows "best correlation lo (max i (int (length correlation))) (peakSearch correlation i pm)"
  using assms
proof (induction correlation i pm rule: peakSearch.induct)
  case (1 correlation i p m)
  show ?case
  proof (cases "i < int (length correlation)")
    case True
    let ?next = "case elemAt correlation i of None \<Rightarrow> (p, m)
                 | Some c \<Rightarrow> if m < c then (i, c) else (p, m)"
    have "best correlation lo (i + 1) ?next"
      using best_step[OF "1.prems"(1,2) True] .
    then have "best correlation lo (max (i + 1) (int (length correlation)))
                 (peakSearch correlation (i + 1) ?next)"
      using "1.IH"[OF True] "1.prems"(2) by simp
    moreover have "peakSearch correlation i (p, m) = peakSearch correlation (i + 1) ?next"
      using True by (subst peakSearch.simps) simp
    moreover have "max (i + 1) (int (length correlation)) = max i (int (length correlation))"
      using True by simp
    ultimately show ?thesis by simp
  next
    case False
    then have "peakSearch correlation i (p, m) = (p, m)"
      by (subst peakSearch.simps) simp
    moreover have "max i (int (length correlation)) = i" using False by simp
    ultimately show ?thesis using "1.prems"(1) by simp
  qed
qed

lemma best_start: "best correlation lo lo (0, NegInf)"
  unfolding best_def by auto

lemma findPeak_best:
  "best correlation (minLag sampleRate) (max (minLag sampleRate) (int (length correlation)))
     (peakSearch correlation (minLag sampleRate) (0, NegInf))"
  using peakSearch_best[OF best_start order_refl] .

lemma findPeak_cases:
  assumes "p = findPeak correlation sampleRate"
    and "lo = max 0 (minLag sampleRate)"
  shows "minLag sampleRate = \<lfloor>sampleRate / 1000\<rfloor>"
    and "(\<exists>j. lo \<le> j \<and> j < int (length correlation) \<and> NegInf < correlation ! nat j) \<longrightarrow>
           lo \<le> p \<and> p < int (length correlation)
           \<and> (\<forall>j. lo \<le> j \<and> j < int (length correlation) \<longrightarrow> \<not> correlation ! nat p < correlation ! nat j)
           \<and> (\<forall>j. lo \<le> j \<and> j < p \<longrightarrow> \<not> correlation ! nat p \<le> correlation ! nat j)"
    and "\<not> (\<exists>j. lo \<le> j \<and> j < int (length correlation) \<and> NegInf < correlation ! nat j) \<longrightarrow> p = 0"
proof -
  obtain q m where qm: "peakSearch correlation (minLag sampleRate) (0, NegInf) = (q, m)"
    by (cases "peakSearch correlation (minLag sampleRate) (0, NegInf)") 
  then have pq: "p = q" using assms(1) by (simp add: findPeak_def)
  have b: "best correlation (minLag sampleRate) (max (minLag sampleRate) (int (length correlation))) (q, m)"
    using findPeak_best[of correlation sampleRate] qm by simp
  have all: "\<not> m < correlation ! nat j" if "lo \<le> j" "j < int (length correlation)" for j
    using b that assms(2) unfolding best_def by auto
  have alt: "(q = 0 \<and> m = NegInf) \<or>
        (lo \<le> q \<and> q < int (length correlation) \<and> m = correlation ! nat q \<and> NegInf < m \<and>
         (\<forall>j. lo \<le> j \<and> j < q \<longrightarrow> \<not> m \<le> correlation ! nat j))"
    using b assms(2) unfolding best_def by auto
  show "minLag sampleRate = \<lfloor>sampleRate / 1000\<rfloor>" by (simp add: minLag_def)
  show "(\<exists>j. lo \<le> j \<and> j < int (length correlation) \<and> NegInf < correlation ! nat j) \<longrightarrow>
           lo \<le> p \<and> p < int (length correlation)
           \<and> (\<forall>j. lo \<le> j \<and> j < int (length correlation) \<longrightarrow> \<not> correlation ! nat p < correlation ! nat j)
           \<and> (\<forall>j. lo \<le> j \<and> j < p \<longrightarrow> \<not> correlation ! nat p \<le> correlation ! nat j)"
  proof
    assume "\<exists>j. lo \<le> j \<and> j < int (length correlation) \<and> NegInf < correlation ! nat j"
    then obtain j where "lo \<le> j" "j < int (length correlation)" "NegInf < correlation ! nat j"
      by blast
    with all[of j] have "m \<noteq> NegInf" by auto
    with alt have "lo \<le> q \<and> q < int (length correlation) \<and> m = correlation ! nat q \<and>
         (\<forall>j. lo \<le> j \<and> j < q \<longrightarrow> \<not> m \<le> correlation ! nat j)" by blast
    with all pq show "lo \<le> p \<and> p < int (length correlation)
           \<and> (\<forall>j. lo \<le> j \<and> j < int (length correlation) \<longrightarrow> \<not> correlation ! nat p < correlation ! nat j)
           \<and> (\<forall>j. lo \<le> j \<and> j < p \<longrightarrow> \<not> correlation ! nat p \<le> correlation ! nat j)"
      by auto
  qed
  show "\<not> (\<exists>j. lo \<le> j \<and> j < int (length correlation) \<and> NegInf < correlation ! nat j) \<longrightarrow> p = 0"
  proof
    assume none: "\<not> (\<exists>j. lo \<le> j \<and> j < int (length correlation) \<and> NegInf < correlation ! nat j)"
    from alt show "p = 0"
    proof
      assume "q = 0 \<and> m = NegInf" with pq show ?thesis by simp
    next
      assume "lo \<le> q \<and> q < int (length correlation) \<and> m = correlation ! nat q \<and> NegInf < m \<and>
         (\<forall>j. lo \<le> j \<and> j < q \<longrightarrow> \<not> m \<le> correlation ! nat j)"
      with none show ?thesis by blast
    qed
  qed
qed

text \<open>
  C5. The located lag \<open>p\<close> comes from a scan of the lags from
  \<open>minLag = floor(sampleRate / 1000)\<close> (from 0 when that is negative) to the end of the
  profile. If some scanned entry is greater than \<open>-Infinity\<close>, then \<open>p\<close> is a scanned
  lag, no scanned entry is greater than the entry at \<open>p\<close>, and no scanned entry before
  \<open>p\<close> reaches it: ties keep the lowest lag. Otherwise \<open>p\<close> stays 0.
\<close>

theorem peak_is_first_maximum:
  assumes "p = findPeak correlation sampleRate"
    and "lo = max 0 (minLag sampleRate)"
  shows "minLag sampleRate = \<lfloor>sampleRate / 1000\<rfloor>
    \<and> ((\<exists>j. lo \<le> j \<and> j < int (length correlation) \<and> NegInf < correlation ! nat j) \<longrightarrow>
           lo \<le> p \<and> p < int (length correlation)
           \<and> (\<forall>j. lo \<le> j \<and> j < int (length correlation) \<longrightarrow> \<not> correlation ! nat p < correlation ! nat j)
           \<and> (\<forall>j. lo \<le> j \<and> j < p \<longrightarrow> \<not> correlation ! nat p \<le> correlation ! nat j))
    \<and> (\<not> (\<exists>j. lo \<le> j \<and> j < int (length correlation) \<and> NegInf < correlation ! nat j) \<longrightarrow> p = 0)"
  using findPeak_cases[OF assms] by blast

text \<open>
  The theorem at the profile \<open>9, 1, 5, 5, 2\<close> with sample rate 1000: lag 0 is not
  scanned, and of the two entries 5 the first one, at lag 2, is kept.
\<close>

theorem peak_is_first_maximum_witness:
  "findPeak [Fin 9, Fin 1, Fin 5, Fin 5, Fin 2] 1000 = 2
   \<and> minLag 1000 = 1
   \<and> \<not> [Fin 9, Fin 1, Fin 5, Fin 5, Fin 2] ! 2 < [Fin 9, Fin 1, Fin 5, Fin 5, Fin 2] ! 3
   \<and> \<not> [Fin 9, Fin 1, Fin 5, Fin 5, Fin 2] ! 2 < [Fin 9, Fin 1, Fin 5, Fin 5, Fin 2] ! 4
   \<and> \<not> [Fin 9, Fin 1, Fin 5, Fin 5, Fin 2] ! 2 \<le> [Fin 9, Fin 1, Fin 5, Fin 5, Fin 2] ! 1"
proof -
  let ?c = "[Fin 9, Fin 1, Fin 5, Fin 5, Fin 2]"
  have p: "(2::int) = findPeak ?c 1000" by code_simp
  have m: "minLag 1000 = 1" by (simp add: minLag_def)
  then have lo: "(1::int) = max 0 (minLag 1000)" by simp
  have cand: "\<exists>j. (1::int) \<le> j \<and> j < int (length ?c) \<and> NegInf < ?c ! nat j"
    by (rule exI[of _ 1]) simp
  from peak_is_first_maximum[OF p lo] cand
  have all: "\<forall>j. 1 \<le> j \<and> j < int (length ?c) \<longrightarrow> \<not> ?c ! nat 2 < ?c ! nat j"
    and first: "\<forall>j. 1 \<le> j \<and> j < 2 \<longrightarrow> \<not> ?c ! nat 2 \<le> ?c ! nat j"
    by blast+
  from all have "\<not> ?c ! nat 2 < ?c ! nat 3" and "\<not> ?c ! nat 2 < ?c ! nat 4"
    by (simp_all del: nth_Cons_numeral)
  moreover from first have "\<not> ?c ! nat 2 \<le> ?c ! nat 1"
    by (simp del: nth_Cons_numeral)
  ultimately show ?thesis using p m by simp
qed

section \<open>Normalization\<close>

lemma maxAbs_foldl:
  "foldl (\<lambda>m x. Math_max m (Math_abs x)) (Fin a) (map Fin xs) = Fin (Max (insert a (abs ` set xs)))"
proof (induction xs arbitrary: a)
  case Nil
  show ?case by simp
next
  case (Cons x xs)
  have "Max (insert (max a \<bar>x\<bar>) (abs ` set xs)) = Max (insert a (insert \<bar>x\<bar> (abs ` set xs)))"
    by (cases "set xs = {}") (simp_all add: max.assoc max.commute max.left_commute)
  then show ?case by (simp add: Cons.IH)
qed

lemma maxAbs_finite: "maxAbs (map Fin xs) = Fin (Max (insert 0 (abs ` set xs)))"
  unfolding maxAbs_def by (rule maxAbs_foldl)

lemma normalizeBuf_nth:
  "length (normalizeBuf buf m) = length buf"
  "i < length buf \<Longrightarrow> normalizeBuf buf m ! i = buf ! i / m"
  by (simp_all add: normalizeBuf_def)

lemma estimator_zero_max: "maxAbs buf = Fin 0 \<Longrightarrow> autocorrelationPitchDetection buf sampleRate = None"
  by (simp add: autocorrelationPitchDetection_def)

text \<open>
  C8. If the maximum absolute sample is exactly zero the estimator returns no estimate,
  before any division. The maximum of finite samples is the largest absolute value
  (zero for none). Otherwise the profile is computed from the buffer in which every
  sample has been divided by that maximum.
\<close>

theorem normalization_guard:
  "(maxAbs buf = Fin 0 \<longrightarrow> autocorrelationPitchDetection buf sampleRate = None)
   \<and> maxAbs (map Fin xs) = Fin (Max (insert 0 (abs ` set xs)))
   \<and> length (normalizeBuf buf m) = length buf
   \<and> (i < length buf \<longrightarrow> normalizeBuf buf m ! i = buf ! i / m)
   \<and> (maxAbs buf \<noteq> Fin 0 \<longrightarrow>
        autocorrelationPitchDetection buf sampleRate =
          (let correlation = correlate (normalizeBuf buf (maxAbs buf));
               peakIndex = interpolate correlation (findPeak correlation sampleRate)
           in if Fin 0 < peakIndex then Some (Fin sampleRate / peakIndex) else None))"
  using estimator_zero_max[of buf sampleRate] maxAbs_finite[of xs] normalizeBuf_nth
  by (simp add: autocorrelationPitchDetection_def Let_def)

text \<open>
  The theorem at the all-zero buffer \<open>0, 0\<close>, which yields no estimate, and at
  \<open>1, -2\<close>, whose maximum is 2 and whose second normalized sample is \<open>-1\<close>.
\<close>

theorem normalization_guard_witness:
  "maxAbs [Fin 0, Fin 0] = Fin 0
   \<and> autocorrelationPitchDetection [Fin 0, Fin 0] 44100 = None
   \<and> maxAbs [Fin 1, Fin (- 2)] = Fin 2
   \<and> normalizeBuf [Fin 1, Fin (- 2)] (Fin 2) ! 1 = Fin (- 1)
   \<and> autocorrelationPitchDetection [Fin 1, Fin (- 2)] 44100 = None"
proof -
  have z: "maxAbs [Fin 0, Fin 0] = Fin 0" by (simp add: maxAbs_def)
  have n: "maxAbs [Fin 1, Fin (- 2)] = Fin 2" by (simp add: maxAbs_def)
  have i: "(1::nat) < length [Fin 1, Fin (- 2)]" by simp
  have c: "(let correlation = correlate (normalizeBuf [Fin 1, Fin (- 2)] (Fin 2));
               peakIndex = interpolate correlation (findPeak correlation 44100)
           in if Fin 0 < peakIndex then Some (Fin 44100 / peakIndex) else None) = None"
    by code_simp
  from normalization_guard[where buf = "[Fin 0, Fin 0]" and sampleRate = 44100] z
  have 1: "autocorrelationPitchDetection [Fin 0, Fin 0] 44100 = None" by blast
  from normalization_guard[where buf = "[Fin 1, Fin (- 2)]" and sampleRate = 44100 and m = "Fin 2" and i = 1] n i
  have "normalizeBuf [Fin 1, Fin (- 2)] (Fin 2) ! 1 = [Fin 1, Fin (- 2)] ! 1 / Fin 2"
    and "autocorrelationPitchDetection [Fin 1, Fin (- 2)] 44100 =
          (let correlation = correlate (normalizeBuf [Fin 1, Fin (- 2)] (maxAbs [Fin 1, Fin (- 2)]));
               peakIndex = interpolate correlation (findPeak correlation 44100)
           in if Fin 0 < peakIndex then Some (Fin 44100 / peakIndex) else None)"
    by simp_all
  then have 2: "normalizeBuf [Fin 1, Fin (- 2)] (Fin 2) ! 1 = Fin (- 1)"
    and 3: "autocorrelationPitchDetection [Fin 1, Fin (- 2)] 44100 = None"
    using c by (simp_all add: n)
  from z 1 n 2 3 show ?thesis by simp
qed

section \<open>The silence gate\<close>

lemma squares_foldl:
  "foldl (\<lambda>sum x. sum + x * x) (Fin a) (map Fin xs) = Fin (a + (\<Sum>x\<leftarrow>xs. x\<^sup>2))"
  by (induction xs arbitrary: a) (simp_all add: power2_eq_square add.assoc)

lemma rms_finite:
  assumes "xs \<noteq> []"
  shows "rms (map Fin xs) = Fin (sqrt ((\<Sum>x\<leftarrow>xs. x\<^sup>2) / real (length xs)))"
proof -
  have "0 \<le> (\<Sum>x\<leftarrow>xs. x\<^sup>2)" by (rule sum_list_nonneg) auto
  then have "\<not> (\<Sum>x\<leftarrow>xs. x\<^sup>2) / real (length xs) < 0"
    by (simp add: not_less)
  then show ?thesis using assms by (simp add: rms_def squares_foldl)
qed

lemma silent_window:
  assumes "rms segment < Fin 0.01"
  shows "processWindow toMidi toNote cb t sr segment st = report cb t st"
  using assms by (simp add: processWindow_def)

lemma sqrt_small: "sqrt (1 / 40000) = 1 / 200"
  by (rule real_sqrt_unique) (simp_all add: power2_eq_square)

text \<open>
  C6. On finite samples \<open>rms\<close> is the square root of the mean of the squares, and it is
  computed on the segment as sliced, before the taper. A segment with \<open>rms < 0.01\<close>
  adds no note and no warning, advances \<open>processedWindows\<close> by one, and the observer,
  when there is one, is called once with \<open>processedWindows / totalWindows\<close>.
\<close>

theorem silence_gate:
  "(xs \<noteq> [] \<longrightarrow> rms (map Fin xs) = Fin (sqrt ((\<Sum>x\<leftarrow>xs. x\<^sup>2) / real (length xs))))
   \<and> (rms segment < Fin 0.01 \<longrightarrow>
        notesList (processWindow toMidi toNote progressCallback totalW sampleRate segment st)
          = notesList st
        \<and> warnings (processWindow toMidi toNote progressCallback totalW sampleRate segment st)
          = warnings st
        \<and> processedWindows (processWindow toMidi toNote progressCallback totalW sampleRate segment st)
          = processedWindows st + 1
        \<and> progress (processWindow toMidi toNote progressCallback totalW sampleRate segment st)
          = progress st @
              (if progressCallback
               then [Fin (real (processedWindows st + 1)) / Fin (real_of_int totalW)] else []))"
  using rms_finite[of xs] silent_window[of segment toMidi toNote progressCallback totalW sampleRate st]
  by (simp add: report_fields)

text \<open>The theorem at the segment \<open>0.005, -0.005\<close>, whose RMS is \<open>0.005\<close>.\<close>

theorem silence_gate_witness:
  "rms [Fin (1 / 200), Fin (- 1 / 200)] = Fin (1 / 200)
   \<and> Fin (1 / 200) < Fin 0.01
   \<and> notesList (processWindow (\<lambda>f. Inr (Fin 69)) (\<lambda>m. Inr ''A4'') True 4 44100
        [Fin (1 / 200), Fin (- 1 / 200)] (start :: unit run)) = []
   \<and> processedWindows (processWindow (\<lambda>f. Inr (Fin 69)) (\<lambda>m. Inr ''A4'') True 4 44100
        [Fin (1 / 200), Fin (- 1 / 200)] (start :: unit run)) = 1
   \<and> progress (processWindow (\<lambda>f. Inr (Fin 69)) (\<lambda>m. Inr ''A4'') True 4 44100
        [Fin (1 / 200), Fin (- 1 / 200)] (start :: unit run)) = [Fin (1 / 4)]"
proof -
  let ?seg = "[Fin (1 / 200), Fin (- 1 / 200)]"
  have seg: "?seg = map Fin [1 / 200, - 1 / 200]" by simp
  have ne: "[1 / 200, - 1 / 200 :: real] \<noteq> []" by simp
  note g = silence_gate[where xs = "[1 / 200, - 1 / 200]" and segment = ?seg
      and toMidi = "\<lambda>f. Inr (Fin 69)" and toNote = "\<lambda>m. Inr ''A4''" and progressCallback = True
      and totalW = 4 and sampleRate = 44100 and st = "start :: unit run"]
  from g ne have "rms (map Fin [1 / 200, - 1 / 200])
      = Fin (sqrt ((\<Sum>x\<leftarrow>[1 / 200, - 1 / 200 :: real]. x\<^sup>2) / real (length [1 / 200, - 1 / 200 :: real])))"
    by blast
  then have r: "rms ?seg = Fin (1 / 200)"
    by (simp add: power2_eq_square sqrt_small)
  then have lt: "rms ?seg < Fin 0.01" by simp
  from g lt have
    "notesList (processWindow (\<lambda>f. Inr (Fin 69)) (\<lambda>m. Inr ''A4'') True 4 44100 ?seg (start :: unit run))
        = notesList (start :: unit run)"
    "processedWindows (processWindow (\<lambda>f. Inr (Fin 69)) (\<lambda>m. Inr ''A4'') True 4 44100 ?seg (start :: unit run))
        = processedWindows (start :: unit run) + 1"
    "progress (processWindow (\<lambda>f. Inr (Fin 69)) (\<lambda>m. Inr ''A4'') True 4 44100 ?seg (start :: unit run))
        = progress (start :: unit run) @
            (if True then [Fin (real (processedWindows (start :: unit run) + 1)) / Fin (real_of_int 4)] else [])"
    by blast+
  with r show ?thesis by (simp add: start_def)
qed

section \<open>A window of seven samples\<close>

text \<open>
  For seven samples the Hann multipliers are \<open>0, 1/4, 3/4, 1, 3/4, 1/4, 0\<close>. The window
  \<open>1, 1, -1, 1, -1, 1, 1\<close> at sample rate 1500 has RMS 1; its tapered profile is largest,
  among the lags from 1 on, at lag 2, the last lag, so the estimate is \<open>1500 / 2 = 750\<close>.
\<close>

lemma cos_4pi3: "cos (4 * pi / 3) = - 1 / 2"
proof -
  have "cos (4 * pi / 3) = cos (2 * pi - 2 * pi / 3)" by simp
  also have "\<dots> = cos (2 * pi / 3)" by (rule cos_2pi_minus)
  also have "\<dots> = - 1 / 2" using cos_120 by simp
  finally show ?thesis .
qed

lemma cos_5pi3: "cos (5 * pi / 3) = 1 / 2"
proof -
  have "cos (5 * pi / 3) = cos (2 * pi - pi / 3)" by simp
  also have "\<dots> = cos (pi / 3)" by (rule cos_2pi_minus)
  also have "\<dots> = 1 / 2" by (rule cos_60)
  finally show ?thesis .
qed

lemma hann7:
  "multiplier 7 0 = Fin 0" "multiplier 7 (Suc 0) = Fin (1/4)" "multiplier 7 2 = Fin (3/4)"
  "multiplier 7 3 = Fin 1" "multiplier 7 4 = Fin (3/4)" "multiplier 7 5 = Fin (1/4)"
  "multiplier 7 6 = Fin 0"
  using cos_60 cos_120 cos_4pi3 cos_5pi3
  by (simp_all add: multiplier_def minus_number_def)

lemma upt7: "[0 ..< 7] = [0, 1, 2, 3, 4, 5, 6]"
  by (simp add: upt_rec)

lemma taper7:
  "applyWindowFunction [Fin 1, Fin 1, Fin (- 1), Fin 1, Fin (- 1), Fin 1, Fin 1]
     = [Fin 0, Fin (1/4), Fin (- 3/4), Fin 1, Fin (- 3/4), Fin (1/4), Fin 0]"
proof -
  have "applyWindowFunction xs = map (\<lambda>i. xs ! i * multiplier 7 i) [0 ..< 7]"
    if "length xs = 7" for xs
    using that by (simp only: applyWindowFunction_def)
  then show ?thesis by (simp add: upt7 hann7)
qed

lemma est7:
  "autocorrelationPitchDetection [Fin 0, Fin (1/4), Fin (- 3/4), Fin 1, Fin (- 3/4), Fin (1/4), Fin 0] 1500
     = Some (Fin 750)"
  by code_simp

lemma rms7: "rms [Fin 1, Fin 1, Fin (- 1), Fin 1, Fin (- 1), Fin 1, Fin 1] = Fin 1"
  by (simp add: rms_def)

lemma estimate7:
  "autocorrelationPitchDetection
      (applyWindowFunction [Fin 1, Fin 1, Fin (- 1), Fin 1, Fin (- 1), Fin 1, Fin 1]) 1500
      = Some (Fin 750)"
  by (simp only: taper7 est7)

section \<open>The quantizer\<close>

lemma quantize_emits_iff:
  "(\<exists>label. notesList (quantize toMidi toNote pitch st) = notesList st @ [label]) \<longleftrightarrow>
   (\<exists>f m label. pitch = Some f \<and> Fin 60 < f \<and> f < Fin 1000 \<and> toMidi f = Inr m
        \<and> Fin 48 \<le> m \<and> m \<le> Fin 84 \<and> toNote m = Inr label)"
proof -
  have t: "truthy (Some f)" if "Fin 60 < f" for f
    using that by (cases f) auto
  show ?thesis
    by (cases pitch) (auto simp: quantize_def t split: sum.splits)
qed

lemma quantize_notes_cases:
  "notesList (quantize toMidi toNote pitch st) = notesList st \<or>
   (\<exists>label. notesList (quantize toMidi toNote pitch st) = notesList st @ [label])"
  by (cases pitch) (auto simp: quantize_def split: sum.splits)

lemma in_range_truthy: "Fin 60 < f \<Longrightarrow> truthy (Some f)"
  by (cases f) auto

lemma quantize_naming_failure:
  assumes "pitch = Some f" "Fin 60 < f" "f < Fin 1000" "toMidi f = Inr m" "Fin 48 \<le> m" "m \<le> Fin 84"
    "toNote m = Inl e"
  shows "quantize toMidi toNote pitch st = st\<lparr>warnings := warnings st @ [e]\<rparr>"
  using assms by (simp add: quantize_def in_range_truthy)

lemma quantize_conversion_failure:
  assumes "pitch = Some f" "Fin 60 < f" "f < Fin 1000" "toMidi f = Inl e"
  shows "quantize toMidi toNote pitch st = st\<lparr>warnings := warnings st @ [e]\<rparr>"
  using assms by (simp add: quantize_def in_range_truthy)

lemma quantize_emits_only:
  assumes "notesList (quantize toMidi toNote pitch st) \<noteq> notesList st"
  shows "\<exists>f m label. pitch = Some (Fin f) \<and> 60 < f \<and> f < 1000 \<and> toMidi (Fin f) = Inr m
           \<and> Fin 48 \<le> m \<and> m \<le> Fin 84 \<and> toNote m = Inr label
           \<and> notesList (quantize toMidi toNote pitch st) = notesList st @ [label]"
proof (cases pitch)
  case None
  with assms show ?thesis by (simp add: quantize_def)
next
  case (Some x)
  show ?thesis
  proof (cases x)
    case (Fin f)
    with Some assms show ?thesis
      by (auto simp: quantize_def split: if_splits sum.splits)
  qed (use Some assms in \<open>simp_all add: quantize_def\<close>)
qed

lemma quantize_falsy:
  "notesList (quantize toMidi toNote None st) = notesList st"
  "notesList (quantize toMidi toNote (Some NaN) st) = notesList st"
  "notesList (quantize toMidi toNote (Some (Fin 0)) st) = notesList st"
  by (simp_all add: quantize_def)

lemma quantize_append:
  "notesList (quantize toMidi toNote pitch st) = notesList st @ notesList (quantize toMidi toNote pitch start)"
  by (cases pitch) (auto simp: quantize_def start_def split: sum.splits)

lemma processWindow_notes:
  "notesList (processWindow toMidi toNote cb t sr segment st) =
     (if rms segment < Fin 0.01 then notesList st
      else notesList (quantize toMidi toNote
             (autocorrelationPitchDetection (applyWindowFunction segment) sr) st))"
  by (simp add: processWindow_def report_fields Let_def)

lemma processWindow_append:
  "notesList (processWindow toMidi toNote cb t sr segment st) =
     notesList st @ notesList (processWindow toMidi toNote cb t sr segment start)"
  unfolding processWindow_notes using quantize_append[of toMidi toNote _ st]
  by (simp add: start_def)

lemma processWindow_loud:
  assumes "\<not> rms segment < Fin 0.01"
  shows "processWindow toMidi toNote cb t sr segment st =
     report cb t (quantize toMidi toNote (autocorrelationPitchDetection (applyWindowFunction segment) sr) st)"
  using assms by (simp add: processWindow_def)

lemma foldl_notes:
  fixes f :: "nat \<Rightarrow> number list"
  shows "notesList (foldl (\<lambda>st i. processWindow toMidi toNote cb t sr (f i) st) st js) =
     notesList st @ concat (map (\<lambda>i. notesList (processWindow toMidi toNote cb t sr (f i) start)) js)"
proof (induction js arbitrary: st)
  case Nil
  show ?case by simp
next
  case (Cons j js)
  show ?case
    by (simp add: Cons.IH processWindow_append[of toMidi toNote cb t sr "f j" st])
qed

lemma run_notes:
  "notesList (analyzePitch toMidi toNote cb channelData sampleRate) =
     concat (map (\<lambda>i. notesList (processWindow toMidi toNote cb (totalWindows channelData) sampleRate
                                  (slice channelData i (i + windowSize)) start))
               (analyzedOffsets (length channelData)))"
  unfolding analyzePitch_foldl
  using foldl_notes[of toMidi toNote cb "totalWindows channelData" sampleRate
      "\<lambda>i. slice channelData i (i + windowSize)" start "analyzedOffsets (length channelData)"]
  by (simp add: start_def)

lemma window7:
  "notesList (processWindow (\<lambda>f. Inr (Fin 78)) (\<lambda>m. Inr ''F#5'') cb t 1500
       [Fin 1, Fin 1, Fin (- 1), Fin 1, Fin (- 1), Fin 1, Fin 1] (start :: unit run)) = [''F#5'']"
proof -
  have "autocorrelationPitchDetection
      (applyWindowFunction [Fin 1, Fin 1, Fin (- 1), Fin 1, Fin (- 1), Fin 1, Fin 1]) 1500
      = Some (Fin 750)"
    by (simp only: taper7 est7)
  then show ?thesis
    by (simp add: processWindow_notes rms7 quantize_def start_def)
qed

lemma processWindow_emits_only:
  assumes "notesList (processWindow toMidi toNote cb t sr segment st) \<noteq> notesList st"
  shows "\<exists>f m label. \<not> rms segment < Fin 0.01
           \<and> autocorrelationPitchDetection (applyWindowFunction segment) sr = Some (Fin f)
           \<and> 60 < f \<and> f < 1000 \<and> toMidi (Fin f) = Inr m
           \<and> Fin 48 \<le> m \<and> m \<le> Fin 84 \<and> toNote m = Inr label
           \<and> notesList (processWindow toMidi toNote cb t sr segment st) = notesList st @ [label]"
proof -
  from assms have loud: "\<not> rms segment < Fin 0.01"
    by (auto simp: processWindow_notes)
  with assms have "notesList (quantize toMidi toNote
      (autocorrelationPitchDetection (applyWindowFunction segment) sr) st) \<noteq> notesList st"
    by (simp add: processWindow_notes)
  from quantize_emits_only[OF this] loud show ?thesis
    by (simp add: processWindow_notes)
qed

text \<open>
  C7. The quantizer appends a note exactly when the estimate is present, lies strictly
  between 60 and 1000, converts to a MIDI number in \<open>[48, 84]\<close> and the naming call
  returns a label; otherwise the notes are unchanged. When the naming call throws for
  an in-range MIDI number, the only effect is that the exception is recorded as a
  warning. A window that passes the silence gate is then still reported and counted, so
  the run goes on with the next window.
\<close>

theorem note_emitted_iff:
  "((\<exists>label. notesList (quantize toMidi toNote pitch st) = notesList st @ [label]) \<longleftrightarrow>
      (\<exists>f m label. pitch = Some f \<and> Fin 60 < f \<and> f < Fin 1000 \<and> toMidi f = Inr m
          \<and> Fin 48 \<le> m \<and> m \<le> Fin 84 \<and> toNote m = Inr label))
   \<and> (notesList (quantize toMidi toNote pitch st) = notesList st
       \<or> (\<exists>label. notesList (quantize toMidi toNote pitch st) = notesList st @ [label]))
   \<and> (pitch = Some f \<and> Fin 60 < f \<and> f < Fin 1000 \<and> toMidi f = Inr m
        \<and> Fin 48 \<le> m \<and> m \<le> Fin 84 \<and> toNote m = Inl e \<longrightarrow>
        quantize toMidi toNote pitch st = st\<lparr>warnings := warnings st @ [e]\<rparr>)
   \<and> (\<not> rms segment < Fin 0.01 \<longrightarrow>
        processWindow toMidi toNote progressCallback totalW sampleRate segment st =
          report progressCallback totalW
            (quantize toMidi toNote
               (autocorrelationPitchDetection (applyWindowFunction segment) sampleRate) st))
   \<and> processedWindows (processWindow toMidi toNote progressCallback totalW sampleRate segment st)
       = processedWindows st + 1"
  using quantize_emits_iff[of toMidi toNote pitch st] quantize_notes_cases[of toMidi toNote pitch st]
    quantize_naming_failure[of pitch f toMidi m toNote e st]
    processWindow_loud[of segment toMidi toNote progressCallback totalW sampleRate st]
    processWindow_counters(1)[of toMidi toNote progressCallback totalW sampleRate segment st]
  by simp

text \<open>
  The theorem at the window of seven samples, estimate 750 and MIDI number 78: with a
  naming call that throws, the window leaves one warning, no note and is counted; with
  one that returns a label, the quantizer appends it.
\<close>

theorem note_emitted_iff_witness:
  "processWindow (\<lambda>f. Inr (Fin 78)) (\<lambda>m. Inl ''no name'') False 1 1500
       [Fin 1, Fin 1, Fin (- 1), Fin 1, Fin (- 1), Fin 1, Fin 1] start
     = \<lparr>notesList = [], processedWindows = 1, progress = [], warnings = [''no name'']\<rparr>
   \<and> (\<exists>label. notesList (quantize (\<lambda>f. Inr (Fin 78)) (\<lambda>m. Inr ''F#5'') (Some (Fin 750))
                   (start :: string run)) = notesList (start :: string run) @ [label])"
proof -
  let ?seg = "[Fin 1, Fin 1, Fin (- 1), Fin 1, Fin (- 1), Fin 1, Fin 1]"
  have loud: "\<not> rms ?seg < Fin 0.01" by (simp add: rms7)
  have fail: "Some (Fin 750) = Some (Fin 750) \<and> Fin 60 < Fin 750 \<and> Fin 750 < Fin 1000
      \<and> (\<lambda>f. Inr (Fin 78) :: string + number) (Fin 750) = Inr (Fin 78)
      \<and> Fin 48 \<le> Fin 78 \<and> Fin 78 \<le> Fin 84
      \<and> (\<lambda>m. Inl ''no name'' :: string + string) (Fin 78) = Inl ''no name''"
    by simp
  note n = note_emitted_iff[where toMidi = "\<lambda>f. Inr (Fin 78)" and toNote = "\<lambda>m. Inl ''no name''"
      and pitch = "Some (Fin 750)" and st = "start :: string run" and f = "Fin 750" and m = "Fin 78"
      and e = "''no name''" and segment = ?seg and progressCallback = False and totalW = 1
      and sampleRate = 1500]
  from n fail have q: "quantize (\<lambda>f. Inr (Fin 78)) (\<lambda>m. Inl ''no name'') (Some (Fin 750)) (start :: string run)
      = start\<lparr>warnings := warnings (start :: string run) @ [''no name'']\<rparr>"
    by blast
  from n loud have "processWindow (\<lambda>f. Inr (Fin 78)) (\<lambda>m. Inl ''no name'') False 1 1500 ?seg (start :: string run)
      = report False 1 (quantize (\<lambda>f. Inr (Fin 78)) (\<lambda>m. Inl ''no name'')
             (autocorrelationPitchDetection (applyWindowFunction ?seg) 1500) start)"
    by blast
  then have 1: "processWindow (\<lambda>f. Inr (Fin 78)) (\<lambda>m. Inl ''no name'') False 1 1500 ?seg (start :: string run)
     = \<lparr>notesList = [], processedWindows = 1, progress = [], warnings = [''no name'']\<rparr>"
    by (simp only: estimate7 q) (simp add: report_def start_def)
  have ok: "\<exists>f m label. Some (Fin 750) = Some f \<and> Fin 60 < f \<and> f < Fin 1000
      \<and> (\<lambda>f. Inr (Fin 78) :: string + number) f = Inr m
      \<and> Fin 48 \<le> m \<and> m \<le> Fin 84 \<and> (\<lambda>m. Inr ''F#5'' :: string + string) m = Inr label"
    by (intro exI[of _ "Fin 750"] exI[of _ "Fin 78"] exI[of _ "''F#5''"]) simp
  from note_emitted_iff[where toMidi = "\<lambda>f. Inr (Fin 78)" and toNote = "\<lambda>m. Inr ''F#5''"
      and pitch = "Some (Fin 750)" and st = "start :: string run"] ok
  have 2: "\<exists>label. notesList (quantize (\<lambda>f. Inr (Fin 78)) (\<lambda>m. Inr ''F#5'') (Some (Fin 750))
                   (start :: string run)) = notesList (start :: string run) @ [label]"
    by blast
  from 1 2 show ?thesis by blast
qed

text \<open>
  C10. The returned notes are the notes of the analysed windows, in window order. A
  window adds a note only if it passed the silence gate and its estimate is a finite
  number strictly between 60 and 1000 whose MIDI number lies in \<open>[48, 84]\<close> and has a
  label, and then it adds exactly that label. The estimates \<open>null\<close>, NaN and \<open>0\<close> add
  nothing.
\<close>

theorem notes_from_valid_estimates:
  "notesList (analyzePitch toMidi toNote progressCallback channelData sampleRate) =
     concat (map (\<lambda>i. notesList (processWindow toMidi toNote progressCallback
                                  (totalWindows channelData) sampleRate
                                  (slice channelData i (i + windowSize)) start))
               (analyzedOffsets (length channelData)))
   \<and> (notesList (processWindow toMidi toNote progressCallback totalW sampleRate segment st)
         \<noteq> notesList st \<longrightarrow>
       (\<exists>f m label. \<not> rms segment < Fin 0.01
           \<and> autocorrelationPitchDetection (applyWindowFunction segment) sampleRate = Some (Fin f)
           \<and> 60 < f \<and> f < 1000 \<and> toMidi (Fin f) = Inr m
           \<and> Fin 48 \<le> m \<and> m \<le> Fin 84 \<and> toNote m = Inr label
           \<and> notesList (processWindow toMidi toNote progressCallback totalW sampleRate segment st)
               = notesList st @ [label]))
   \<and> notesList (quantize toMidi toNote None st) = notesList st
   \<and> notesList (quantize toMidi toNote (Some NaN) st) = notesList st
   \<and> notesList (quantize toMidi toNote (Some (Fin 0)) st) = notesList st"
  using run_notes[of toMidi toNote progressCallback channelData sampleRate]
    processWindow_emits_only[of toMidi toNote progressCallback totalW sampleRate segment st]
    quantize_falsy[of toMidi toNote st]
  by blast

text \<open>
  The theorem at the window of seven samples: it adds the note, and its estimate 750 is
  finite and in range.
\<close>

theorem notes_from_valid_estimates_witness:
  "notesList (processWindow (\<lambda>f. Inr (Fin 78)) (\<lambda>m. Inr ''F#5'') False 1 1500
       [Fin 1, Fin 1, Fin (- 1), Fin 1, Fin (- 1), Fin 1, Fin 1] (start :: unit run)) = [''F#5'']
   \<and> (\<exists>f. autocorrelationPitchDetection
             (applyWindowFunction [Fin 1, Fin 1, Fin (- 1), Fin 1, Fin (- 1), Fin 1, Fin 1]) 1500
           = Some (Fin f) \<and> 60 < f \<and> f < 1000)"
proof -
  let ?seg = "[Fin 1, Fin 1, Fin (- 1), Fin 1, Fin (- 1), Fin 1, Fin 1]"
  have w: "notesList (processWindow (\<lambda>f. Inr (Fin 78)) (\<lambda>m. Inr ''F#5'') False 1 1500 ?seg
      (start :: unit run)) = [''F#5'']"
    by (rule window7)
  then have "notesList (processWindow (\<lambda>f. Inr (Fin 78)) (\<lambda>m. Inr ''F#5'') False 1 1500 ?seg
      (start :: unit run)) \<noteq> notesList (start :: unit run)"
    by (simp add: start_def)
  with notes_from_valid_estimates[where toMidi = "\<lambda>f. Inr (Fin 78)" and toNote = "\<lambda>m. Inr ''F#5''"
      and progressCallback = False and totalW = 1 and sampleRate = 1500 and segment = ?seg
      and st = "start :: unit run" and channelData = ?seg]
  have "\<exists>f. autocorrelationPitchDetection (applyWindowFunction ?seg) 1500 = Some (Fin f)
      \<and> 60 < f \<and> f < 1000"
    by blast
  with w show ?thesis by blast
qed

end
